theory Spec2Isabelle
  imports Complex_Main "HOL-Library.Sublist"
begin

section \<open>Floating-point values of the arrays\<close>

text \<open>
  The arrays of \<^verbatim>\<open>smooth_grad.py\<close> are numpy arrays of IEEE-754 numbers: \<^verbatim>\<open>data\<close>,
  the noise, the gradients and the accumulator are \<^verbatim>\<open>float32\<close>, the values drawn by
  \<^verbatim>\<open>np.random.normal\<close> are \<^verbatim>\<open>float64\<close>. A value is a rational number or one of the three
  special values. The sign of zero is not represented: \<^verbatim>\<open>-0.0\<close> and \<^verbatim>\<open>0.0\<close> are both
  \<open>Fin 0\<close> (they compare equal in numpy as well).
\<close>

datatype fval = Fin rat | NaN | PInf | NInf

datatype fmt = F32 | F64

fun prec :: "fmt \<Rightarrow> nat" where
  "prec F32 = 24"
| "prec F64 = 53"

fun emin :: "fmt \<Rightarrow> int" where
  "emin F32 = - 126"
| "emin F64 = - 1022"

fun emax :: "fmt \<Rightarrow> int" where
  "emax F32 = 127"
| "emax F64 = 1023"

definition pow2 :: "int \<Rightarrow> rat" where
  "pow2 e = (if 0 \<le> e then 2 ^ nat e else 1 / 2 ^ nat (- e))"

fun bits :: "nat \<Rightarrow> nat" where
  "bits n = (if n = 0 then 0 else Suc (bits (n div 2)))"

declare bits.simps [simp del]

definition ilog2 :: "rat \<Rightarrow> int" where
  \<comment> \<open>the binary exponent of a non-zero \<open>x\<close>: the \<open>e\<close> with \<open>2 ^ e \<le> \<bar>x\<bar> < 2 ^ (e + 1)\<close>\<close>
  "ilog2 x =
     (let (p, q) = quotient_of \<bar>x\<bar>;
          e = int (bits (nat p)) - int (bits (nat q))
      in if pow2 e \<le> \<bar>x\<bar> then e else e - 1)"

definition round_half_even :: "rat \<Rightarrow> int" where
  "round_half_even q =
     (let f = \<lfloor>q\<rfloor>; d = q - of_int f
      in if d < 1 / 2 then f
         else if 1 / 2 < d then f + 1
         else if even f then f else f + 1)"

definition fround :: "fmt \<Rightarrow> rat \<Rightarrow> fval" where
  \<comment> \<open>round to nearest, ties to even, with gradual underflow and overflow to infinity\<close>
  "fround f x =
     (if x = 0 then Fin 0
      else let e = max (ilog2 x) (emin f);
               u = pow2 (e - int (prec f) + 1);
               r = of_int (round_half_even (x / u)) * u
           in if pow2 (emax f + 1) \<le> \<bar>r\<bar> then (if 0 < r then PInf else NInf)
              else Fin r)"

fun cast :: "fmt \<Rightarrow> fval \<Rightarrow> fval" where
  "cast f (Fin x) = fround f x"
| "cast f v = v"

fun fneg :: "fval \<Rightarrow> fval" where
  "fneg (Fin x) = Fin (- x)"
| "fneg NaN = NaN"
| "fneg PInf = NInf"
| "fneg NInf = PInf"

fun fadd :: "fmt \<Rightarrow> fval \<Rightarrow> fval \<Rightarrow> fval" where
  "fadd f NaN b = NaN"
| "fadd f a NaN = NaN"
| "fadd f (Fin x) (Fin y) = fround f (x + y)"
| "fadd f PInf NInf = NaN"
| "fadd f NInf PInf = NaN"
| "fadd f PInf b = PInf"
| "fadd f NInf b = NInf"
| "fadd f a PInf = PInf"
| "fadd f a NInf = NInf"

definition fsub :: "fmt \<Rightarrow> fval \<Rightarrow> fval \<Rightarrow> fval" where
  "fsub f a b = fadd f a (fneg b)"

fun fsgn :: "fval \<Rightarrow> int" where
  "fsgn (Fin x) = (if x < 0 then - 1 else if x = 0 then 0 else 1)"
| "fsgn PInf = 1"
| "fsgn NInf = - 1"
| "fsgn NaN = 0"

definition signed_inf :: "int \<Rightarrow> fval" where
  "signed_inf s = (if s = 0 then NaN else if 0 < s then PInf else NInf)"

fun fmul :: "fmt \<Rightarrow> fval \<Rightarrow> fval \<Rightarrow> fval" where
  "fmul f NaN b = NaN"
| "fmul f a NaN = NaN"
| "fmul f (Fin x) (Fin y) = fround f (x * y)"
| "fmul f a b = signed_inf (fsgn a * fsgn b)"

fun fdiv :: "fmt \<Rightarrow> fval \<Rightarrow> fval \<Rightarrow> fval" where
  "fdiv f NaN b = NaN"
| "fdiv f a NaN = NaN"
| "fdiv f (Fin x) (Fin y) = (if y = 0 then signed_inf (fsgn (Fin x)) else fround f (x / y))"
| "fdiv f (Fin x) b = Fin 0"
| "fdiv f a (Fin y) = signed_inf (fsgn a * (if y < 0 then - 1 else 1))"
| "fdiv f a b = NaN"

fun flt :: "fval \<Rightarrow> fval \<Rightarrow> bool" where
  "flt NaN b = False"
| "flt a NaN = False"
| "flt (Fin x) (Fin y) = (x < y)"
| "flt PInf b = False"
| "flt a NInf = False"
| "flt a b = True"

definition fmax2 :: "fval \<Rightarrow> fval \<Rightarrow> fval" where
  \<comment> \<open>\<^verbatim>\<open>np.maximum\<close>: a NaN operand gives NaN\<close>
  "fmax2 a b = (if a = NaN \<or> b = NaN then NaN else if flt a b then b else a)"

definition fmin2 :: "fval \<Rightarrow> fval \<Rightarrow> fval" where
  "fmin2 a b = (if a = NaN \<or> b = NaN then NaN else if flt b a then b else a)"

section \<open>Arrays, errors and the interpreter's world\<close>

text \<open>
  A batch is an array of shape \<open>(bsz, \<dots>)\<close>: the list of its samples along the first
  axis, every sample flattened to the list of its elements in row-major order (the
  reductions over "every axis but the first" range over exactly these elements).
\<close>

type_synonym sample = "fval list"
type_synonym tensor = "sample list"

datatype error = ValueError | TypeError | IndexError | AssertionError | External string

text \<open>
  Arrays that the code allocates live in a store, addressed by natural numbers, so that
  the in-place update \<^verbatim>\<open>total_gradients += gradients\<close> is a write to one cell and every
  other array operation allocates a fresh cell. The world also holds the state of the
  wrapped network (whatever \<^verbatim>\<open>predict_fn\<close> keeps between calls), the position in the
  stream of standard normal draws, the attributes the interpreter sets on itself, and two
  logs: the arguments of every \<^verbatim>\<open>predict_fn\<close> call and the scale and size of every
  \<^verbatim>\<open>np.random.normal\<close> call, in call order.
\<close>

record 'm world =
  store :: "nat \<Rightarrow> tensor"
  next_addr :: nat
  model :: 'm
  rng :: nat
  predict_log :: "(tensor \<times> int list option) list"
  normal_log :: "(fval \<times> nat) list"
  predicted_label :: "int list option"
  predicted_proba :: "fval list option"
  self_labels :: "int list option"

text \<open>
  \<^verbatim>\<open>predict_fn\<close> is built by the base class, which is not part of this file: it is a
  parameter. It reads the batch and the labels, may change the network's state, and
  either raises or returns the gradients, the predicted labels and the probabilities.
  It only reads the arrays it is given.
\<close>

type_synonym 'm predict_fn =
  "tensor \<Rightarrow> int list option \<Rightarrow> 'm \<Rightarrow> (error + tensor \<times> int list \<times> fval list) \<times> 'm"

definition alloc :: "tensor \<Rightarrow> 'm world \<Rightarrow> nat \<times> 'm world" where
  "alloc t w =
     (next_addr w, w\<lparr>store := (store w)(next_addr w := t), next_addr := Suc (next_addr w)\<rparr>)"

definition call_predict_fn ::
  "'m predict_fn \<Rightarrow> nat \<Rightarrow> int list option \<Rightarrow> 'm world
   \<Rightarrow> (error + tensor \<times> int list \<times> fval list) \<times> 'm world" where
  "call_predict_fn pf a labels w =
     (let x = store w a;
          (r, m') = pf x labels (model w)
      in (r, w\<lparr>model := m', predict_log := predict_log w @ [(x, labels)]\<rparr>))"

subsection \<open>The numpy operations the interpreter uses\<close>

definition zeros_like :: "tensor \<Rightarrow> tensor" where
  "zeros_like t = map (map (\<lambda>_. Fin 0)) t"

definition fmaxl :: "sample \<Rightarrow> fval" where
  "fmaxl s = foldl fmax2 (hd s) (tl s)"

definition fminl :: "sample \<Rightarrow> fval" where
  "fminl s = foldl fmin2 (hd s) (tl s)"

fun np_reduce :: "(sample \<Rightarrow> fval) \<Rightarrow> tensor \<Rightarrow> error + fval list" where
  \<comment> \<open>\<^verbatim>\<open>np.max(data, axis=max_axis)\<close>: a reduction over no element raises\<close>
  "np_reduce r [] = Inr []"
| "np_reduce r (s # ss) =
     (if s = [] then Inl ValueError
      else case np_reduce r ss of Inl e \<Rightarrow> Inl e | Inr vs \<Rightarrow> Inr (r s # vs))"

definition np_stds :: "fval \<Rightarrow> tensor \<Rightarrow> error + fval list" where
  \<comment> \<open>\<^verbatim>\<open>noise_amount * (np.max(data, axis=max_axis) - np.min(data, axis=max_axis))\<close>: the
      Python float is converted to the array's \<^verbatim>\<open>float32\<close>\<close>
  "np_stds na t =
     (case np_reduce fmaxl t of Inl e \<Rightarrow> Inl e
      | Inr mx \<Rightarrow>
        (case np_reduce fminl t of Inl e \<Rightarrow> Inl e
         | Inr mn \<Rightarrow> Inr (map2 (\<lambda>a b. fmul F32 (cast F32 na) (fsub F32 a b)) mx mn)))"

definition np_random_normal ::
  "(nat \<Rightarrow> rat) \<Rightarrow> fval \<Rightarrow> nat \<Rightarrow> 'm world \<Rightarrow> (error + sample) \<times> 'm world" where
  \<comment> \<open>\<^verbatim>\<open>np.random.normal(0.0, scale, size)\<close>: rejects a negative scale, otherwise
      \<^verbatim>\<open>loc + scale * z\<close> in double precision for the next \<open>k\<close> standard normal draws \<open>z\<close>\<close>
  "np_random_normal gauss scale k w =
     (let w' = w\<lparr>normal_log := normal_log w @ [(scale, k)]\<rparr>
      in if flt scale (Fin 0) then (Inl ValueError, w')
         else (Inr (map (\<lambda>i. fadd F64 (Fin 0) (fmul F64 scale (Fin (gauss (rng w + i)))))
                      [0..<k]),
               w'\<lparr>rng := rng w + k\<rparr>))"

fun make_noise ::
  "(nat \<Rightarrow> rat) \<Rightarrow> fval list \<Rightarrow> tensor \<Rightarrow> 'm world \<Rightarrow> (error + tensor) \<times> 'm world" where
  \<comment> \<open>the list comprehension over \<^verbatim>\<open>enumerate(data)\<close>; the first argument list is
      \<^verbatim>\<open>stds[j:]\<close>\<close>
  "make_noise gauss stds [] w = (Inr [], w)"
| "make_noise gauss [] (d # ds) w = (Inl IndexError, w)"
| "make_noise gauss (s # ss) (d # ds) w =
     (case np_random_normal gauss s (length d) w of
        (Inl e, w1) \<Rightarrow> (Inl e, w1)
      | (Inr z, w1) \<Rightarrow>
        (case make_noise gauss ss ds w1 of
           (Inl e, w2) \<Rightarrow> (Inl e, w2)
         | (Inr zs, w2) \<Rightarrow> (Inr (map (cast F32) z # zs), w2)))"

definition np_concatenate :: "tensor \<Rightarrow> error + tensor" where
  "np_concatenate parts = (if parts = [] then Inl ValueError else Inr parts)"

definition np_add :: "tensor \<Rightarrow> tensor \<Rightarrow> tensor" where
  \<comment> \<open>the sum of two \<^verbatim>\<open>float32\<close> arrays of one shape\<close>
  "np_add a b = map2 (map2 (fadd F32)) a b"

definition same_shape :: "tensor \<Rightarrow> tensor \<Rightarrow> bool" where
  "same_shape a b = (map length a = map length b)"

definition np_iadd :: "nat \<Rightarrow> tensor \<Rightarrow> 'm world \<Rightarrow> error option \<times> 'm world" where
  \<comment> \<open>\<^verbatim>\<open>total_gradients += gradients\<close>: writes the cell of the accumulator. An operand of
      another shape raises (numpy would broadcast some of them; a gradient has the shape
      of its input, and broadcasting is not represented)\<close>
  "np_iadd a g w =
     (if same_shape (store w a) g
      then (None, w\<lparr>store := (store w)(a := np_add (store w a) g)\<rparr>)
      else (Some ValueError, w))"

definition np_divide :: "tensor \<Rightarrow> int \<Rightarrow> tensor" where
  \<comment> \<open>\<^verbatim>\<open>total_gradients / n_samples\<close>: a \<^verbatim>\<open>float32\<close> division by the converted integer;
      dividing by zero raises nothing, it gives NaN or an infinity\<close>
  "np_divide t n = map (map (\<lambda>x. fdiv F32 x (fround F32 (of_int n)))) t"

section \<open>SmoothGradInterpreter.interpret\<close>

record call_args =
  labels :: "int list option"
  noise_amount :: fval
  n_samples :: int
  visual :: bool
  save_path :: "string option"

definition sg_step ::
  "'m predict_fn \<Rightarrow> (nat \<Rightarrow> rat) \<Rightarrow> nat \<Rightarrow> fval list \<Rightarrow> int list \<Rightarrow> nat \<Rightarrow> 'm world
   \<Rightarrow> error option \<times> 'm world" where
  \<comment> \<open>one iteration of the loop, lines 88 to 92\<close>
  "sg_step pf gauss d stds lbls acc w =
     (case make_noise gauss stds (store w d) w of
        (Inl e, w1) \<Rightarrow> (Some e, w1)
      | (Inr parts, w1) \<Rightarrow>
        (case np_concatenate parts of
           Inl e \<Rightarrow> (Some e, w1)
         | Inr noise \<Rightarrow>
           (let (nd, w2) = alloc (np_add (store w1 d) noise) w1
            in case call_predict_fn pf nd (Some lbls) w2 of
                 (Inl e, w3) \<Rightarrow> (Some e, w3)
               | (Inr (gradients, _, _), w3) \<Rightarrow> np_iadd acc gradients w3)))"

fun sg_loop ::
  "'m predict_fn \<Rightarrow> (nat \<Rightarrow> rat) \<Rightarrow> nat \<Rightarrow> fval list \<Rightarrow> int list \<Rightarrow> nat \<Rightarrow> nat \<Rightarrow> 'm world
   \<Rightarrow> error option \<times> 'm world" where
  \<comment> \<open>\<^verbatim>\<open>for i in range(n_samples)\<close>, by the number of iterations left\<close>
  "sg_loop pf gauss d stds lbls acc 0 w = (None, w)"
| "sg_loop pf gauss d stds lbls acc (Suc k) w =
     (case sg_step pf gauss d stds lbls acc w of
        (Some e, w1) \<Rightarrow> (Some e, w1)
      | (None, w1) \<Rightarrow> sg_loop pf gauss d stds lbls acc k w1)"

definition sg_interpret ::
  "'m predict_fn \<Rightarrow> (nat \<Rightarrow> rat) \<Rightarrow> (tensor \<Rightarrow> error option) \<Rightarrow> call_args \<Rightarrow> tensor \<Rightarrow> 'm world
   \<Rightarrow> (error + nat) \<times> 'm world" where
  \<comment> \<open>\<open>data\<close> is the array that \<^verbatim>\<open>images_transform_pipeline\<close> returns (line 67);
      \<open>vis\<close> stands for the visualisation branch of lines 101 to 110, which calls only
      the visualizer module with the finished explanation and may raise\<close>
  "sg_interpret pf gauss vis args data w0 =
     (let (d, w1) = alloc data w0;
          bsz = length (store w1 d)
      in case call_predict_fn pf d (labels args) w1 of
           (Inl e, w2) \<Rightarrow> (Inl e, w2)
         | (Inr (_, pl, pp), w2) \<Rightarrow>
           (let w3 = w2\<lparr>predicted_label := Some pl, predicted_proba := Some pp\<rparr>;
                lbls = (case labels args of None \<Rightarrow> pl | Some l \<Rightarrow> l)
            in if length lbls \<noteq> bsz then (Inl ValueError, w3)
               else case np_stds (noise_amount args) (store w3 d) of
                      Inl e \<Rightarrow> (Inl e, w3)
                    | Inr stds \<Rightarrow>
                      (let (acc, w4) = alloc (zeros_like (store w3 d)) w3
                       in case sg_loop pf gauss d stds lbls acc (nat (n_samples args)) w4 of
                            (Some e, w5) \<Rightarrow> (Inl e, w5)
                          | (None, w5) \<Rightarrow>
                            (let (r, w6) = alloc (np_divide (store w5 acc) (n_samples args)) w5
                             in case (if save_path args = None \<and> \<not> visual args then None
                                      else vis (store w6 r)) of
                                  Some e \<Rightarrow> (Inl e, w6)
                                | None \<Rightarrow> (Inr r, w6\<lparr>self_labels := Some lbls\<rparr>)))))"

definition init_world :: "'m \<Rightarrow> 'm world" where
  \<comment> \<open>a fresh interpreter around a network in state \<open>m\<close>\<close>
  "init_world m =
     \<lparr>store = (\<lambda>_. []), next_addr = 0, model = m, rng = 0, predict_log = [], normal_log = [],
      predicted_label = None, predicted_proba = None, self_labels = None\<rparr>"

section \<open>SmoothGradNLPInterpreter.interpret\<close>

text \<open>
  What the text pipeline hands over is an array (it has a \<^verbatim>\<open>shape\<close>; iterating it gives
  its elements along the first axis, and a 0-d array cannot be iterated), an iterable
  without a \<^verbatim>\<open>shape\<close> (a tuple or list of arrays), or a value that is neither.
\<close>

datatype ndarray = Scalar rat | Axis "ndarray list"

datatype py_value = Array ndarray | Sequence "ndarray list" | Opaque

datatype event =
    Tokenize string int
  | TextToInput string
  | Predict "ndarray list" "int list option" "fval option"

record 'm nlp_world =
  nlp_model :: 'm
  events :: "event list"
  nlp_predicted_label :: "int list option"
  nlp_predicted_proba :: "fval list option"

text \<open>
  The NLP \<^verbatim>\<open>predict_fn\<close> takes the model input, the label and \<^verbatim>\<open>noise_amount\<close>
  (\<open>None\<close> for no noise) and returns gradients, label, a third value that \<^verbatim>\<open>interpret\<close>
  discards, and the probabilities; the discarded value is left out.
\<close>

type_synonym 'm nlp_predict_fn =
  "ndarray list \<Rightarrow> int list option \<Rightarrow> fval option \<Rightarrow> 'm
   \<Rightarrow> (error + tensor \<times> int list \<times> fval list) \<times> 'm"

type_synonym tokenizer = "string \<Rightarrow> int \<Rightarrow> error + ndarray list"
type_synonym text_to_input_fn = "string \<Rightarrow> error + py_value"

record nlp_args =
  raw_text :: string
  label :: "int list option"
  nlp_noise_amount :: fval
  nlp_n_samples :: int
  max_seq_len :: int
  nlp_visual :: bool

definition from_tokenizer :: "tokenizer \<Rightarrow> int \<Rightarrow> text_to_input_fn" where
  \<comment> \<open>the local \<^verbatim>\<open>text_to_input_fn\<close> of lines 171 to 175: the tokenizer gives the values
      of \<^verbatim>\<open>encoded_inputs\<close> in order, each is wrapped as \<^verbatim>\<open>np.array([v])\<close>\<close>
  "from_tokenizer tok msl txt =
     (case tok txt msl of
        Inl e \<Rightarrow> Inl e
      | Inr vs \<Rightarrow> Inr (Sequence (map (\<lambda>v. Axis [v]) vs)))"

fun to_model_input :: "py_value \<Rightarrow> error + ndarray list" where
  \<comment> \<open>lines 181 to 184; \<^verbatim>\<open>tuple(model_input, )\<close> is \<^verbatim>\<open>tuple(model_input)\<close>\<close>
  "to_model_input (Sequence xs) = Inr xs"
| "to_model_input (Array (Axis xs)) = Inr xs"
| "to_model_input (Array (Scalar x)) = Inl TypeError"
| "to_model_input Opaque = Inl TypeError"

definition nlp_call ::
  "'m nlp_predict_fn \<Rightarrow> ndarray list \<Rightarrow> int list option \<Rightarrow> fval option \<Rightarrow> 'm nlp_world
   \<Rightarrow> (error + tensor \<times> int list \<times> fval list) \<times> 'm nlp_world" where
  "nlp_call pf mi lab na w =
     (let (r, m') = pf mi lab na (nlp_model w)
      in (r, w\<lparr>nlp_model := m', events := events w @ [Predict mi lab na]\<rparr>))"

fun nlp_loop ::
  "'m nlp_predict_fn \<Rightarrow> ndarray list \<Rightarrow> int list \<Rightarrow> fval \<Rightarrow> tensor \<Rightarrow> nat \<Rightarrow> 'm nlp_world
   \<Rightarrow> (error + tensor) \<times> 'm nlp_world" where
  \<comment> \<open>lines 192 to 194, by the number of iterations left; the accumulator is local\<close>
  "nlp_loop pf mi lab na tot 0 w = (Inr tot, w)"
| "nlp_loop pf mi lab na tot (Suc k) w =
     (case nlp_call pf mi (Some lab) (Some na) w of
        (Inl e, w1) \<Rightarrow> (Inl e, w1)
      | (Inr (gradients, _, _), w1) \<Rightarrow>
        (if same_shape tot gradients
         then nlp_loop pf mi lab na (np_add tot gradients) k w1
         else (Inl ValueError, w1)))"

definition nlp_run ::
  "'m nlp_predict_fn \<Rightarrow> nlp_args \<Rightarrow> error + py_value \<Rightarrow> 'm nlp_world
   \<Rightarrow> (error + tensor) \<times> 'm nlp_world" where
  \<comment> \<open>lines 181 to 208, from the outcome of the \<^verbatim>\<open>text_to_input_fn(raw_text)\<close> call on\<close>
  "nlp_run pf args conv w1 =
     (case conv of
        Inl e \<Rightarrow> (Inl e, w1)
      | Inr v \<Rightarrow>
        (case to_model_input v of
           Inl e \<Rightarrow> (Inl e, w1)
         | Inr mi \<Rightarrow>
           (case nlp_call pf mi (label args) None w1 of
              (Inl e, w2) \<Rightarrow> (Inl e, w2)
            | (Inr (gradients, lab, proba), w2) \<Rightarrow>
              (case nlp_loop pf mi lab (nlp_noise_amount args) (zeros_like gradients)
                      (nat (nlp_n_samples args)) w2 of
                 (Inl e, w3) \<Rightarrow> (Inl e, w3)
               | (Inr tot, w3) \<Rightarrow>
                 (Inr (np_divide tot (nlp_n_samples args)),
                  w3\<lparr>nlp_predicted_label := Some lab,
                     nlp_predicted_proba := Some proba\<rparr>)))))"

definition nlp_interpret ::
  "tokenizer option \<Rightarrow> text_to_input_fn option \<Rightarrow> 'm nlp_predict_fn \<Rightarrow> nlp_args
   \<Rightarrow> 'm nlp_world \<Rightarrow> (error + tensor) \<times> 'm nlp_world" where
  \<comment> \<open>the assertion of line 167, then the choice of \<^verbatim>\<open>text_to_input_fn\<close> and its call
      (lines 170 to 180); calling an absent function raises \<^verbatim>\<open>TypeError\<close>\<close>
  "nlp_interpret tokenizer text_to_input_fn pf args w0 =
     (if of_bool (Option.is_none tokenizer) + of_bool (Option.is_none text_to_input_fn)
           \<noteq> (1 :: int)
      then (Inl AssertionError, w0)
      else
        (case tokenizer of
           Some tok \<Rightarrow>
             nlp_run pf args (from_tokenizer tok (max_seq_len args) (raw_text args))
               (w0\<lparr>events := events w0 @ [Tokenize (raw_text args) (max_seq_len args)]\<rparr>)
         | None \<Rightarrow>
             (case text_to_input_fn of
                Some f \<Rightarrow>
                  nlp_run pf args (f (raw_text args))
                    (w0\<lparr>events := events w0 @ [TextToInput (raw_text args)]\<rparr>)
              | None \<Rightarrow> (Inl TypeError, w0))))"

definition init_nlp_world :: "'m \<Rightarrow> 'm nlp_world" where
  "init_nlp_world m =
     \<lparr>nlp_model = m, events = [], nlp_predicted_label = None, nlp_predicted_proba = None\<rparr>"

section \<open>Reference definitions for the averaging claims\<close>


fun replay :: "'m predict_fn \<Rightarrow> int list \<Rightarrow> tensor list \<Rightarrow> 'm \<Rightarrow> error + tensor list" where
  \<comment> \<open>the gradients that successive calls on the batches \<open>xs\<close> return, starting from
      network state \<open>m\<close>\<close>
  "replay pf lbls [] m = Inr []"
| "replay pf lbls (x # xs) m =
     (case pf x (Some lbls) m of
        (Inl e, m') \<Rightarrow> Inl e
      | (Inr (g, _, _), m') \<Rightarrow>
        (case replay pf lbls xs m' of
           Inl e \<Rightarrow> Inl e
         | Inr gs \<Rightarrow> Inr (g # gs)))"

section \<open>The states of one interpret call\<close>

text \<open>
  Names for the worlds that \<^verbatim>\<open>interpret\<close> goes through, used to state its properties:
  after the baseline call (\<open>data\<close> in the first fresh cell), before the loop (the zero
  accumulator in the next cell), and the steps after the loop (lines 94 to 115).
\<close>

definition after_baseline :: "'m world \<Rightarrow> tensor \<Rightarrow> call_args \<Rightarrow> int list \<Rightarrow> fval list \<Rightarrow> 'm \<Rightarrow> 'm world" where
  "after_baseline w0 data args pl pp m1 =
     w0\<lparr>store := (store w0)(next_addr w0 := data), next_addr := Suc (next_addr w0),
        model := m1, predict_log := predict_log w0 @ [(data, labels args)],
        predicted_label := Some pl, predicted_proba := Some pp\<rparr>"

definition before_loop :: "'m world \<Rightarrow> tensor \<Rightarrow> call_args \<Rightarrow> int list \<Rightarrow> fval list \<Rightarrow> 'm \<Rightarrow> 'm world" where
  "before_loop w0 data args pl pp m1 =
     (after_baseline w0 data args pl pp m1)
       \<lparr>store := (store (after_baseline w0 data args pl pp m1))
                   (Suc (next_addr w0) := zeros_like data),
        next_addr := Suc (Suc (next_addr w0))\<rparr>"

definition finish :: "(tensor \<Rightarrow> error option) \<Rightarrow> call_args \<Rightarrow> int list \<Rightarrow> nat \<Rightarrow> error option \<times> 'm world \<Rightarrow> (error + nat) \<times> 'm world" where
  "finish vis args lbls acc L =
     (case L of
        (Some e, w5) \<Rightarrow> (Inl e, w5)
      | (None, w5) \<Rightarrow>
        (let (r, w6) = alloc (np_divide (store w5 acc) (n_samples args)) w5
         in case (if save_path args = None \<and> \<not> visual args then None else vis (store w6 r)) of
              Some e \<Rightarrow> (Inl e, w6)
            | None \<Rightarrow> (Inr r, w6\<lparr>self_labels := Some lbls\<rparr>)))"

definition noise_scale :: "fval \<Rightarrow> sample \<Rightarrow> fval" where
  \<comment> \<open>the standard deviation of the noise for one sample: \<^verbatim>\<open>noise_amount\<close> times the
      difference of its largest and smallest element, in \<^verbatim>\<open>float32\<close>\<close>
  "noise_scale na s = fmul F32 (cast F32 na) (fsub F32 (fmaxl s) (fminl s))"

definition const_grad :: "'m predict_fn \<Rightarrow> tensor \<Rightarrow> bool" where
  \<comment> \<open>a stub gradient function: every call succeeds and returns the gradient \<open>g\<close>\<close>
  "const_grad pf g = (\<forall>x l m. \<exists>pl pp m'. pf x l m = (Inr (g, pl, pp), m'))"


section \<open>Concrete inputs\<close>

definition stub_fn :: "tensor \<Rightarrow> unit predict_fn" where
  \<comment> \<open>a stateless stub: gradient \<open>g\<close>, predicted label 0 with probability 1 for one sample\<close>
  "stub_fn g = (\<lambda>x l m. (Inr (g, [0], [Fin 1]), m))"

definition demo_args :: "fval \<Rightarrow> int \<Rightarrow> call_args" where
  "demo_args na n =
     \<lparr>labels = None, noise_amount = na, n_samples = n, visual = False, save_path = None\<rparr>"


section \<open>Averaging one value\<close>





section \<open>Properties of the rounding function\<close>

lemma pow2_powi: "pow2 e = 2 powi e"
  by (simp add: pow2_def power_int_def inverse_eq_divide power_one_over)

lemma pow2_pos [simp]: "0 < pow2 e"
  by (simp add: pow2_powi)








lemma fround_0 [simp]: "fround f 0 = Fin 0"
  by (simp add: fround_def)



lemma round_half_even_nonneg: "0 \<le> q \<Longrightarrow> 0 \<le> round_half_even q"
  by (auto simp: round_half_even_def Let_def)

lemma fround_nonneg: "0 \<le> x \<Longrightarrow> \<not> flt (fround f x) (Fin 0)"
proof (cases "x = 0")
  case True
  then show ?thesis by simp
next
  case False
  assume x: "0 \<le> x"
  define u where "u = pow2 (max (ilog2 x) (emin f) - int (prec f) + 1)"
  define r where "r = rat_of_int (round_half_even (x / u)) * u"
  have u: "0 < u" by (simp add: u_def)
  then have "0 \<le> x / u" using x by simp
  then have "0 \<le> round_half_even (x / u)" by (rule round_half_even_nonneg)
  then have r: "0 \<le> r" using u by (simp add: r_def)
  have "fround f x = (if pow2 (emax f + 1) \<le> \<bar>r\<bar> then (if 0 < r then PInf else NInf) else Fin r)"
    using False by (simp add: fround_def Let_def u_def r_def)
  moreover have "pow2 (emax f + 1) \<le> \<bar>r\<bar> \<Longrightarrow> 0 < r"
    using r pow2_pos[of "emax f + 1"] by linarith
  ultimately show ?thesis using r by auto
qed

lemma fmax2_fmin2_ordered:
  "\<not> flt a b \<Longrightarrow> \<not> flt (fmax2 a y) (fmin2 b y)"
  by (cases a; cases b; cases y) (auto simp: fmax2_def fmin2_def)

lemma foldl_max_min_ordered:
  "\<not> flt a b \<Longrightarrow> \<not> flt (foldl fmax2 a xs) (foldl fmin2 b xs)"
  by (induction xs arbitrary: a b) (simp_all add: fmax2_fmin2_ordered)

lemma flt_irrefl: "\<not> flt a a"
  by (cases a) auto

lemma fmaxl_ge_fminl: "\<not> flt (fmaxl s) (fminl s)"
  unfolding fmaxl_def fminl_def by (rule foldl_max_min_ordered) (rule flt_irrefl)

lemma fsub_nonneg: "\<not> flt a b \<Longrightarrow> \<not> flt (fsub f a b) (Fin 0)"
  by (cases a; cases b) (auto simp: fsub_def fround_nonneg)

lemma fmul_nonneg:
  "\<not> flt a (Fin 0) \<Longrightarrow> \<not> flt b (Fin 0) \<Longrightarrow> \<not> flt (fmul f a b) (Fin 0)"
  by (cases a; cases b) (auto simp: fround_nonneg signed_inf_def)

lemma cast_nonneg: "\<not> flt a (Fin 0) \<Longrightarrow> \<not> flt (cast f a) (Fin 0)"
  by (cases a) (auto simp: fround_nonneg)

lemma noise_scale_nonneg:
  "\<not> flt na (Fin 0) \<Longrightarrow> \<not> flt (noise_scale na s) (Fin 0)"
  unfolding noise_scale_def
  by (intro fmul_nonneg cast_nonneg fsub_nonneg fmaxl_ge_fminl)

section \<open>Properties of the array operations\<close>

lemma same_shape_np_add: "same_shape a g \<Longrightarrow> same_shape (np_add a g) = same_shape a"
proof -
  assume "same_shape a g"
  then have "map length (map2 (map2 (fadd F32)) a g) = map length a"
    unfolding same_shape_def
  proof (induction a arbitrary: g)
    case Nil then show ?case by simp
  next
    case (Cons x a) then show ?case by (cases g) auto
  qed
  then show ?thesis by (simp add: same_shape_def np_add_def fun_eq_iff)
qed

lemma same_shape_zeros_like [simp]: "same_shape (zeros_like a) = same_shape a"
  by (simp add: same_shape_def zeros_like_def comp_def fun_eq_iff)





lemma fadd_NaN_right [simp]: "fadd f a NaN = NaN"
  by (cases a) simp_all











section \<open>Properties of SmoothGradInterpreter.interpret\<close>

lemma make_noise_frame:
  "\<exists>xs k. snd (make_noise gauss stds ds w) = w\<lparr>normal_log := normal_log w @ xs, rng := k\<rparr>
      \<and> prefix xs (zip stds (map length ds))
      \<and> (\<forall>z. fst (make_noise gauss stds ds w) = Inr z \<longrightarrow>
            xs = zip stds (map length ds) \<and> length ds \<le> length stds
            \<and> map length z = map length ds)"
proof (induction gauss stds ds w rule: make_noise.induct)
  case (1 gauss stds w)
  show ?case by (rule exI[of _ "[]"], rule exI[of _ "rng w"]) simp
next
  case (2 gauss d ds w)
  show ?case by (rule exI[of _ "[]"], rule exI[of _ "rng w"]) simp
next
  case (3 gauss s ss d ds w)
  show ?case
  proof (cases "flt s (Fin 0)")
    case True
    then show ?thesis
      by (intro exI[of _ "[(s, length d)]"] exI[of _ "rng w"])
         (simp add: np_random_normal_def)
  next
    case False
    define z where "z = map (\<lambda>i. fadd F64 (Fin 0) (fmul F64 s (Fin (gauss (rng w + i))))) [0..<length d]"
    define w1 where "w1 = w\<lparr>normal_log := normal_log w @ [(s, length d)], rng := rng w + length d\<rparr>"
    have n: "np_random_normal gauss s (length d) w = (Inr z, w1)"
      using False by (simp add: np_random_normal_def z_def w1_def)
    from 3[OF n[symmetric] refl] obtain xs k where
      ih: "snd (make_noise gauss ss ds w1) = w1\<lparr>normal_log := normal_log w1 @ xs, rng := k\<rparr>"
          "prefix xs (zip ss (map length ds))"
          "\<forall>zs. fst (make_noise gauss ss ds w1) = Inr zs \<longrightarrow>
            xs = zip ss (map length ds) \<and> length ds \<le> length ss \<and> map length zs = map length ds"
      by blast
    obtain r w2 where mn: "make_noise gauss ss ds w1 = (r, w2)"
      by (cases "make_noise gauss ss ds w1")
    have w2: "w2 = w\<lparr>normal_log := normal_log w @ (s, length d) # xs, rng := k\<rparr>"
      using ih(1) mn by (simp add: w1_def)
    show ?thesis
    proof (cases r)
      case (Inl e)
      have "make_noise gauss (s # ss) (d # ds) w = (Inl e, w2)"
        using n mn Inl by simp
      then show ?thesis
        using w2 ih(2) by (intro exI[of _ "(s, length d) # xs"] exI[of _ k]) simp
    next
      case (Inr zs)
      have "make_noise gauss (s # ss) (d # ds) w = (Inr (map (cast F32) z # zs), w2)"
        using n mn Inr by simp
      moreover have "xs = zip ss (map length ds) \<and> length ds \<le> length ss \<and> map length zs = map length ds"
        using ih(3) mn Inr by simp
      moreover have "length z = length d" by (simp add: z_def)
      ultimately show ?thesis
        using w2 by (intro exI[of _ "(s, length d) # xs"] exI[of _ k]) simp
    qed
  qed
qed

lemma sg_step_sound:
  assumes "acc < next_addr w"
  shows "\<exists>xs cs. normal_log (snd (sg_step pf gauss d stds lbls acc w)) = normal_log w @ xs
      \<and> prefix xs (zip stds (map length (store w d)))
      \<and> predict_log (snd (sg_step pf gauss d stds lbls acc w)) =
          predict_log w @ map (\<lambda>x. (x, Some lbls)) cs
      \<and> length cs \<le> 1
      \<and> next_addr w \<le> next_addr (snd (sg_step pf gauss d stds lbls acc w))
      \<and> (\<forall>a. a < next_addr w \<and> a \<noteq> acc \<longrightarrow>
            store (snd (sg_step pf gauss d stds lbls acc w)) a = store w a)
      \<and> (fst (sg_step pf gauss d stds lbls acc w) = None \<longrightarrow>
            xs = zip stds (map length (store w d)) \<and> length cs = 1
            \<and> (\<exists>g. replay pf lbls cs (model w) = Inr [g]
                  \<and> (\<forall>ys. replay pf lbls (cs @ ys) (model w) =
                        (case replay pf lbls ys (model (snd (sg_step pf gauss d stds lbls acc w))) of
                           Inl e \<Rightarrow> Inl e | Inr gs \<Rightarrow> Inr (g # gs)))
                  \<and> same_shape (store w acc) g
                  \<and> store (snd (sg_step pf gauss d stds lbls acc w)) acc = np_add (store w acc) g))"
proof -
  define D where "D = store w d"
  from make_noise_frame[of gauss stds D w] obtain xs k where
    mn: "snd (make_noise gauss stds D w) = w\<lparr>normal_log := normal_log w @ xs, rng := k\<rparr>"
        "prefix xs (zip stds (map length D))"
        "\<forall>z. fst (make_noise gauss stds D w) = Inr z \<longrightarrow>
            xs = zip stds (map length D) \<and> length D \<le> length stds \<and> map length z = map length D"
    by blast
  define w1 where "w1 = w\<lparr>normal_log := normal_log w @ xs, rng := k\<rparr>"
  obtain r where mk: "make_noise gauss stds D w = (r, w1)"
    using mn(1) by (cases "make_noise gauss stds D w") (simp add: w1_def)
  show ?thesis
  proof (cases r)
    case (Inl e)
    then have "sg_step pf gauss d stds lbls acc w = (Some e, w1)"
      using mk by (simp add: sg_step_def D_def)
    then show ?thesis
      using mn(2) by (intro exI[of _ xs] exI[of _ "[]"]) (simp add: w1_def D_def)
  next
    case (Inr parts)
    show ?thesis
    proof (cases "parts = []")
      case True
      then have "sg_step pf gauss d stds lbls acc w = (Some ValueError, w1)"
        using mk Inr by (simp add: sg_step_def D_def np_concatenate_def)
      then show ?thesis
        using mn(2) by (intro exI[of _ xs] exI[of _ "[]"]) (simp add: w1_def D_def)
    next
      case False
      define x where "x = np_add D parts"
      obtain q m' where pf: "pf x (Some lbls) (model w) = (q, m')"
        by (cases "pf x (Some lbls) (model w)")
      define w3 where "w3 = w1\<lparr>store := (store w1)(next_addr w1 := x), next_addr := Suc (next_addr w1),
         model := m', predict_log := predict_log w1 @ [(x, Some lbls)]\<rparr>"
      have st: "sg_step pf gauss d stds lbls acc w =
          (case q of Inl e \<Rightarrow> (Some e, w3) | Inr (g, pl, pp) \<Rightarrow> np_iadd acc g w3)"
        using mk Inr False pf
        by (simp add: sg_step_def D_def[symmetric] np_concatenate_def alloc_def call_predict_fn_def
              w1_def w3_def x_def Let_def split: sum.splits)
      have xs: "xs = zip stds (map length D)"
        using mn(3) mk Inr by simp
      show ?thesis
      proof (cases q)
        case (Inl e)
        then show ?thesis using st mn(2) assms
          by (intro exI[of _ xs] exI[of _ "[x]"]) (simp add: w3_def w1_def D_def)
      next
        case q: (Inr t)
        obtain g pl pp where t: "t = (g, pl, pp)" by (cases t)
        show ?thesis
        proof (cases "same_shape (store w3 acc) g")
          case True
          then have "sg_step pf gauss d stds lbls acc w =
               (None, w3\<lparr>store := (store w3)(acc := np_add (store w3 acc) g)\<rparr>)"
            using st q t by (simp add: np_iadd_def)
          then show ?thesis using mn(2) assms xs pf q t True
            by (intro exI[of _ xs] exI[of _ "[x]"]) (auto simp: w3_def w1_def D_def split: sum.splits)
        next
          case False
          then have "sg_step pf gauss d stds lbls acc w = (Some ValueError, w3)"
            using st q t by (simp add: np_iadd_def)
          then show ?thesis using mn(2) assms
            by (intro exI[of _ xs] exI[of _ "[x]"]) (simp add: w3_def w1_def D_def)
        qed
      qed
    qed
  qed
qed

lemma sg_loop_sound:
  assumes "acc < next_addr w" and "d < next_addr w" and "d \<noteq> acc"
  shows "\<exists>xs cs. normal_log (snd (sg_loop pf gauss d stds lbls acc k w)) = normal_log w @ xs
      \<and> prefix xs (concat (replicate k (zip stds (map length (store w d)))))
      \<and> predict_log (snd (sg_loop pf gauss d stds lbls acc k w)) =
          predict_log w @ map (\<lambda>x. (x, Some lbls)) cs
      \<and> length cs \<le> k
      \<and> next_addr w \<le> next_addr (snd (sg_loop pf gauss d stds lbls acc k w))
      \<and> (\<forall>a. a < next_addr w \<and> a \<noteq> acc \<longrightarrow>
            store (snd (sg_loop pf gauss d stds lbls acc k w)) a = store w a)
      \<and> (fst (sg_loop pf gauss d stds lbls acc k w) = None \<longrightarrow>
            xs = concat (replicate k (zip stds (map length (store w d)))) \<and> length cs = k
            \<and> (\<exists>gs. replay pf lbls cs (model w) = Inr gs \<and> length gs = k
                  \<and> store (snd (sg_loop pf gauss d stds lbls acc k w)) acc =
                      foldl np_add (store w acc) gs))"
  using assms
proof (induction k arbitrary: w)
  case 0
  show ?case by (intro exI[of _ "[]"]) simp
next
  case (Suc k)
  let ?Z = "zip stds (map length (store w d))"
  let ?S = "sg_step pf gauss d stds lbls acc w"
  let ?w1 = "snd ?S"
  from sg_step_sound[OF Suc.prems(1), of pf gauss d stds lbls] obtain xs1 cs1 where
    s: "normal_log ?w1 = normal_log w @ xs1" "prefix xs1 ?Z"
       "predict_log ?w1 = predict_log w @ map (\<lambda>x. (x, Some lbls)) cs1" "length cs1 \<le> 1"
       "next_addr w \<le> next_addr ?w1"
       "\<forall>a. a < next_addr w \<and> a \<noteq> acc \<longrightarrow> store ?w1 a = store w a"
       "fst ?S = None \<longrightarrow> xs1 = ?Z \<and> length cs1 = 1
          \<and> (\<exists>g. replay pf lbls cs1 (model w) = Inr [g]
                \<and> (\<forall>ys. replay pf lbls (cs1 @ ys) (model w) =
                      (case replay pf lbls ys (model ?w1) of Inl e \<Rightarrow> Inl e | Inr gs \<Rightarrow> Inr (g # gs)))
                \<and> same_shape (store w acc) g
                \<and> store ?w1 acc = np_add (store w acc) g)"
    by (elim exE conjE) (rule that; assumption)
  show ?case
  proof (cases "fst ?S")
    case (Some e)
    then have L: "sg_loop pf gauss d stds lbls acc (Suc k) w = (Some e, ?w1)"
      by (cases ?S) simp
    from s(2) have "prefix xs1 (concat (replicate (Suc k) ?Z))"
      by (simp add: prefix_def) (metis append.assoc)
    then show ?thesis
      using s(1,3,4,5,6) unfolding L
      by (intro exI[of _ xs1] exI[of _ cs1]) simp
  next
    case None
    then have L: "sg_loop pf gauss d stds lbls acc (Suc k) w = sg_loop pf gauss d stds lbls acc k ?w1"
      by (cases ?S) simp
    from s(7) None obtain g where
      g: "xs1 = ?Z" "length cs1 = 1"
         "\<forall>ys. replay pf lbls (cs1 @ ys) (model w) =
            (case replay pf lbls ys (model ?w1) of Inl e \<Rightarrow> Inl e | Inr gs \<Rightarrow> Inr (g # gs))"
         "store ?w1 acc = np_add (store w acc) g"
      by blast
    have d1: "store ?w1 d = store w d" using s(6) Suc.prems by simp
    have p1: "acc < next_addr ?w1" "d < next_addr ?w1" using s(5) Suc.prems by simp_all
    let ?w2 = "snd (sg_loop pf gauss d stds lbls acc k ?w1)"
    from Suc.IH[OF p1 Suc.prems(3)] obtain xs2 cs2 where
      i: "normal_log ?w2 = normal_log ?w1 @ xs2" "prefix xs2 (concat (replicate k ?Z))"
         "predict_log ?w2 = predict_log ?w1 @ map (\<lambda>x. (x, Some lbls)) cs2" "length cs2 \<le> k"
         "next_addr ?w1 \<le> next_addr ?w2"
         "\<forall>a. a < next_addr ?w1 \<and> a \<noteq> acc \<longrightarrow> store ?w2 a = store ?w1 a"
         "fst (sg_loop pf gauss d stds lbls acc k ?w1) = None \<longrightarrow>
            xs2 = concat (replicate k ?Z) \<and> length cs2 = k
            \<and> (\<exists>gs. replay pf lbls cs2 (model ?w1) = Inr gs \<and> length gs = k
                  \<and> store ?w2 acc = foldl np_add (store ?w1 acc) gs)"
      unfolding d1 by (elim exE conjE) (rule that; assumption)
    have fr: "\<forall>a. a < next_addr w \<and> a \<noteq> acc \<longrightarrow> store ?w2 a = store w a"
      using i(6) s(6) s(5) by auto
    have fin: "xs1 @ xs2 = concat (replicate (Suc k) ?Z) \<and> length (cs1 @ cs2) = Suc k
            \<and> (\<exists>gs. replay pf lbls (cs1 @ cs2) (model w) = Inr gs \<and> length gs = Suc k
                  \<and> store ?w2 acc = foldl np_add (store w acc) gs)"
      if ok: "fst (sg_loop pf gauss d stds lbls acc k ?w1) = None"
    proof -
      from i(7) ok obtain gs where
        gs: "xs2 = concat (replicate k ?Z)" "length cs2 = k"
            "replay pf lbls cs2 (model ?w1) = Inr gs" "length gs = k"
            "store ?w2 acc = foldl np_add (store ?w1 acc) gs"
        by blast
      have "replay pf lbls (cs1 @ cs2) (model w) = Inr (g # gs)"
        using g(3) gs(3) by simp
      moreover have "store ?w2 acc = foldl np_add (store w acc) (g # gs)"
        using gs(5) g(4) by simp
      ultimately show ?thesis using g(1,2) gs(1,2,4)
        by (intro conjI exI[of _ "g # gs"]) simp_all
    qed
    show ?thesis
      unfolding L
      apply (rule exI[of _ "xs1 @ xs2"], rule exI[of _ "cs1 @ cs2"])
      using s(1,3,4,5) i(1,2,3,4,5) fr fin g(1)
      by simp
  qed
qed

lemma sg_interpret_baseline_fails:
  assumes "pf data (labels args) (model w0) = (Inl e, m1)"
  shows "sg_interpret pf gauss vis args data w0 =
     (Inl e, w0\<lparr>store := (store w0)(next_addr w0 := data), next_addr := Suc (next_addr w0),
        model := m1, predict_log := predict_log w0 @ [(data, labels args)]\<rparr>)"
  using assms by (simp add: sg_interpret_def alloc_def call_predict_fn_def)

lemma sg_interpret_unfold:
  assumes "pf data (labels args) (model w0) = (Inr (g0, pl, pp), m1)"
    and "lbls = (case labels args of None \<Rightarrow> pl | Some l \<Rightarrow> l)"
  shows "sg_interpret pf gauss vis args data w0 =
     (if length lbls \<noteq> length data then (Inl ValueError, after_baseline w0 data args pl pp m1)
      else case np_stds (noise_amount args) data of
             Inl e \<Rightarrow> (Inl e, after_baseline w0 data args pl pp m1)
           | Inr stds \<Rightarrow>
               finish vis args lbls (Suc (next_addr w0))
                 (sg_loop pf gauss (next_addr w0) stds lbls (Suc (next_addr w0))
                    (nat (n_samples args)) (before_loop w0 data args pl pp m1)))"
  using assms
  by (simp add: sg_interpret_def alloc_def call_predict_fn_def after_baseline_def before_loop_def
        finish_def Let_def split: sum.splits prod.splits option.splits)

lemma np_reduce_eq:
  "np_reduce r t = (if \<forall>s\<in>set t. s \<noteq> [] then Inr (map r t) else Inl ValueError)"
  by (induction t) auto

lemma zip_map_same: "zip (map f xs) (map g xs) = map (\<lambda>x. (f x, g x)) xs"
  by (induction xs) auto

lemma np_stds_eq:
  "np_stds na t =
     (if \<forall>s\<in>set t. s \<noteq> [] then Inr (map (noise_scale na) t) else Inl ValueError)"
  by (auto simp: np_stds_def np_reduce_eq noise_scale_def zip_map_same)

lemma finish_facts:
  "predict_log (snd (finish vis args lbls acc (ro, w5))) = predict_log w5
   \<and> normal_log (snd (finish vis args lbls acc (ro, w5))) = normal_log w5
   \<and> (\<forall>a. a < next_addr w5 \<longrightarrow> store (snd (finish vis args lbls acc (ro, w5))) a = store w5 a)
   \<and> (\<forall>r. fst (finish vis args lbls acc (ro, w5)) = Inr r \<longrightarrow>
         ro = None \<and> r = next_addr w5
         \<and> (save_path args = None \<and> \<not> visual args
              \<or> vis (np_divide (store w5 acc) (n_samples args)) = None)
         \<and> self_labels (snd (finish vis args lbls acc (ro, w5))) = Some lbls
         \<and> store (snd (finish vis args lbls acc (ro, w5))) r =
             np_divide (store w5 acc) (n_samples args))
   \<and> (ro = None \<longrightarrow> (save_path args = None \<and> \<not> visual args
              \<or> vis (np_divide (store w5 acc) (n_samples args)) = None) \<longrightarrow>
         fst (finish vis args lbls acc (ro, w5)) = Inr (next_addr w5))"
  by (cases ro) (auto simp: finish_def alloc_def Let_def split: option.splits)

lemma before_loop_facts:
  "next_addr (before_loop w0 data args pl pp m1) = Suc (Suc (next_addr w0))"
  "store (before_loop w0 data args pl pp m1) (next_addr w0) = data"
  "store (before_loop w0 data args pl pp m1) (Suc (next_addr w0)) = zeros_like data"
  "a < next_addr w0 \<Longrightarrow> store (before_loop w0 data args pl pp m1) a = store w0 a"
  "model (before_loop w0 data args pl pp m1) = m1"
  "predict_log (before_loop w0 data args pl pp m1) = predict_log w0 @ [(data, labels args)]"
  "normal_log (before_loop w0 data args pl pp m1) = normal_log w0"
  by (simp_all add: before_loop_def after_baseline_def)

lemma after_baseline_facts:
  "store (after_baseline w0 data args pl pp m1) (next_addr w0) = data"
  "a < next_addr w0 \<Longrightarrow> store (after_baseline w0 data args pl pp m1) a = store w0 a"
  "predict_log (after_baseline w0 data args pl pp m1) = predict_log w0 @ [(data, labels args)]"
  "normal_log (after_baseline w0 data args pl pp m1) = normal_log w0"
  by (simp_all add: after_baseline_def)

lemma sg_interpret_summary:
  assumes base: "pf data (labels args) (model w0) = (Inr (g0, pl, pp), m1)"
    and lbls: "lbls = (case labels args of None \<Rightarrow> pl | Some l \<Rightarrow> l)"
  shows "\<exists>xs cs.
      normal_log (snd (sg_interpret pf gauss vis args data w0)) = normal_log w0 @ xs
    \<and> prefix xs (concat (replicate (nat (n_samples args))
                      (map (\<lambda>s. (noise_scale (noise_amount args) s, length s)) data)))
    \<and> predict_log (snd (sg_interpret pf gauss vis args data w0)) =
        predict_log w0 @ (data, labels args) # map (\<lambda>x. (x, Some lbls)) cs
    \<and> length cs \<le> nat (n_samples args)
    \<and> store (snd (sg_interpret pf gauss vis args data w0)) (next_addr w0) = data
    \<and> (\<forall>a<next_addr w0. store (snd (sg_interpret pf gauss vis args data w0)) a = store w0 a)
    \<and> (\<forall>r. fst (sg_interpret pf gauss vis args data w0) = Inr r \<longrightarrow>
          xs = concat (replicate (nat (n_samples args))
                 (map (\<lambda>s. (noise_scale (noise_amount args) s, length s)) data))
        \<and> length cs = nat (n_samples args)
        \<and> length lbls = length data
        \<and> Suc (next_addr w0) < r
        \<and> self_labels (snd (sg_interpret pf gauss vis args data w0)) = Some lbls
        \<and> (\<exists>gs. replay pf lbls cs m1 = Inr gs \<and> length gs = nat (n_samples args)
              \<and> store (snd (sg_interpret pf gauss vis args data w0)) (Suc (next_addr w0)) =
                  foldl np_add (zeros_like data) gs
              \<and> store (snd (sg_interpret pf gauss vis args data w0)) r =
                  np_divide (foldl np_add (zeros_like data) gs) (n_samples args)))"
proof -
  let ?R = "sg_interpret pf gauss vis args data w0"
  let ?d = "next_addr w0"
  let ?Z = "map (\<lambda>s. (noise_scale (noise_amount args) s, length s)) data"
  let ?w3 = "after_baseline w0 data args pl pp m1"
  let ?w4 = "before_loop w0 data args pl pp m1"
  note unf = sg_interpret_unfold[where pf=pf and data=data and args=args and ?w0.0=w0 and gauss=gauss and vis=vis, OF base lbls]
  show ?thesis
  proof (cases "length lbls = length data \<and> (\<forall>s\<in>set data. s \<noteq> [])")
    case False
    then have "\<exists>e. ?R = (Inl e, ?w3)"
      unfolding unf by (auto simp: np_stds_eq)
    then obtain e where R: "?R = (Inl e, ?w3)" ..
    show ?thesis unfolding R
      by (intro exI[of _ "[]"]) (simp add: after_baseline_facts)
  next
    case True
    let ?stds = "map (noise_scale (noise_amount args)) data"
    let ?L = "sg_loop pf gauss ?d ?stds lbls (Suc ?d) (nat (n_samples args)) ?w4"
    have R: "?R = finish vis args lbls (Suc ?d) (fst ?L, snd ?L)"
      unfolding unf using True by (simp add: np_stds_eq)
    have Z: "zip ?stds (map length (store ?w4 ?d)) = ?Z"
      by (simp add: before_loop_facts zip_map_same)
    have pre: "Suc ?d < next_addr ?w4" "?d < next_addr ?w4" "?d \<noteq> Suc ?d"
      by (simp_all add: before_loop_facts)
    from sg_loop_sound[OF pre, of pf gauss ?stds lbls "nat (n_samples args)"]
    obtain xs cs where
      l: "normal_log (snd ?L) = normal_log ?w4 @ xs"
         "prefix xs (concat (replicate (nat (n_samples args)) ?Z))"
         "predict_log (snd ?L) = predict_log ?w4 @ map (\<lambda>x. (x, Some lbls)) cs"
         "length cs \<le> nat (n_samples args)"
         "next_addr ?w4 \<le> next_addr (snd ?L)"
         "\<forall>a. a < next_addr ?w4 \<and> a \<noteq> Suc ?d \<longrightarrow> store (snd ?L) a = store ?w4 a"
         "fst ?L = None \<longrightarrow>
            xs = concat (replicate (nat (n_samples args)) ?Z) \<and> length cs = nat (n_samples args)
            \<and> (\<exists>gs. replay pf lbls cs (model ?w4) = Inr gs \<and> length gs = nat (n_samples args)
                  \<and> store (snd ?L) (Suc ?d) = foldl np_add (store ?w4 (Suc ?d)) gs)"
      unfolding Z by (elim exE conjE) (rule that; assumption)
    note f = finish_facts[of vis args lbls "Suc ?d" "fst ?L" "snd ?L"]
    have lt: "Suc (Suc ?d) \<le> next_addr (snd ?L)"
      using l(5) by (simp add: before_loop_facts)
    have nl: "normal_log (snd ?R) = normal_log w0 @ xs"
      unfolding R using f l(1) by (simp add: before_loop_facts)
    have pl: "predict_log (snd ?R) = predict_log w0 @ (data, labels args) # map (\<lambda>x. (x, Some lbls)) cs"
      unfolding R using f l(3) by (simp add: before_loop_facts)
    have keep: "store (snd ?R) a = store ?w4 a" if "a < Suc (Suc ?d)" "a \<noteq> Suc ?d" for a
    proof -
      have "store (snd ?R) a = store (snd ?L) a"
        unfolding R using f lt that by simp
      also have "\<dots> = store ?w4 a"
        using l(6) that by (simp add: before_loop_facts)
      finally show ?thesis .
    qed
    have sd: "store (snd ?R) ?d = data"
      using keep[of ?d] by (simp add: before_loop_facts)
    have old: "\<forall>a<?d. store (snd ?R) a = store w0 a"
      using keep by (simp add: before_loop_facts)
    have succ: "xs = concat (replicate (nat (n_samples args)) ?Z)
        \<and> length cs = nat (n_samples args)
        \<and> length lbls = length data
        \<and> Suc ?d < r
        \<and> self_labels (snd ?R) = Some lbls
        \<and> (\<exists>gs. replay pf lbls cs m1 = Inr gs \<and> length gs = nat (n_samples args)
              \<and> store (snd ?R) (Suc ?d) = foldl np_add (zeros_like data) gs
              \<and> store (snd ?R) r = np_divide (foldl np_add (zeros_like data) gs) (n_samples args))"
      if r: "fst ?R = Inr r" for r
    proof -
      from r f have ok: "fst ?L = None" and rr: "r = next_addr (snd ?L)"
        and sl: "self_labels (snd ?R) = Some lbls"
        and sr: "store (snd ?R) r = np_divide (store (snd ?L) (Suc ?d)) (n_samples args)"
        unfolding R by blast+
      from l(7) ok obtain gs where
        gs: "xs = concat (replicate (nat (n_samples args)) ?Z)" "length cs = nat (n_samples args)"
            "replay pf lbls cs (model ?w4) = Inr gs" "length gs = nat (n_samples args)"
            "store (snd ?L) (Suc ?d) = foldl np_add (store ?w4 (Suc ?d)) gs"
        by blast
      have acc: "store (snd ?R) (Suc ?d) = store (snd ?L) (Suc ?d)"
        unfolding R using f lt by simp
      show ?thesis
        using gs sl sr rr lt acc True
        by (intro conjI exI[of _ gs]) (simp_all add: before_loop_facts)
    qed
    show ?thesis
      apply (rule exI[of _ xs], rule exI[of _ cs])
      using nl l(2) pl l(4) sd old succ by blast
  qed
qed

lemma make_noise_ok:
  "list_all (\<lambda>s. \<not> flt s (Fin 0)) stds \<Longrightarrow> length ds \<le> length stds \<Longrightarrow>
     \<exists>z. fst (make_noise gauss stds ds w) = Inr z"
proof (induction gauss stds ds w rule: make_noise.induct)
  case (1 gauss stds w)
  then show ?case by simp
next
  case (2 gauss d ds w)
  then show ?case by simp
next
  case (3 gauss s ss d ds w)
  from 3(2) have s: "\<not> flt s (Fin 0)" and ss: "list_all (\<lambda>s. \<not> flt s (Fin 0)) ss" by simp_all
  obtain z w1 where n: "np_random_normal gauss s (length d) w = (Inr z, w1)"
    using s by (simp add: np_random_normal_def)
  from 3(1)[OF n[symmetric] refl ss] 3(3) obtain zs where
    "fst (make_noise gauss ss ds w1) = Inr zs" by auto
  then show ?case using n by (cases "make_noise gauss ss ds w1") auto
qed

lemma sg_step_complete:
  assumes z: "fst (make_noise gauss stds (store w d) w) = Inr z"
    and ne: "store w d \<noteq> []" and acc: "acc < next_addr w"
  shows "fst (sg_step pf gauss d stds lbls acc w) =
           (case pf (np_add (store w d) z) (Some lbls) (model w) of
              (Inl e, m') \<Rightarrow> Some e
            | (Inr (g, pl, pp), m') \<Rightarrow>
                if same_shape (store w acc) g then None else Some ValueError)
       \<and> predict_log (snd (sg_step pf gauss d stds lbls acc w)) =
           predict_log w @ [(np_add (store w d) z, Some lbls)]"
proof -
  let ?D = "store w d"
  from make_noise_frame[of gauss stds ?D w] obtain xs k where
    mn: "snd (make_noise gauss stds ?D w) = w\<lparr>normal_log := normal_log w @ xs, rng := k\<rparr>"
    and sh: "\<forall>z. fst (make_noise gauss stds ?D w) = Inr z \<longrightarrow>
            xs = zip stds (map length ?D) \<and> length ?D \<le> length stds \<and> map length z = map length ?D"
    by blast
  let ?w1 = "w\<lparr>normal_log := normal_log w @ xs, rng := k\<rparr>"
  have mk: "make_noise gauss stds ?D w = (Inr z, ?w1)"
    using mn z by (cases "make_noise gauss stds ?D w") simp
  from sh z have "map length z = map length ?D" by simp
  with ne have zne: "z \<noteq> []" by auto
  obtain q m' where pf: "pf (np_add ?D z) (Some lbls) (model w) = (q, m')"
    by (cases "pf (np_add ?D z) (Some lbls) (model w)")
  show ?thesis
  proof (cases q)
    case (Inl e)
    then show ?thesis using mk zne pf acc
      by (simp add: sg_step_def np_concatenate_def alloc_def call_predict_fn_def Let_def)
  next
    case (Inr t)
    obtain g pl pp where t: "t = (g, pl, pp)" by (cases t)
    show ?thesis using mk zne pf acc Inr t
      by (simp add: sg_step_def np_concatenate_def alloc_def call_predict_fn_def Let_def np_iadd_def)
  qed
qed

lemma replay_const:
  "const_grad pf g \<Longrightarrow> replay pf lbls cs m = Inr (replicate (length cs) g)"
proof (induction cs arbitrary: m)
  case Nil
  then show ?case by simp
next
  case (Cons c cs)
  from Cons.prems obtain pl pp m' where "pf c (Some lbls) m = (Inr (g, pl, pp), m')"
    unfolding const_grad_def by blast
  then show ?case using Cons.IH[OF Cons.prems, of m'] by simp
qed

lemma sg_loop_const:
  assumes "const_grad pf g" and "list_all (\<lambda>s. \<not> flt s (Fin 0)) stds"
    and "length (store w d) \<le> length stds" and "store w d \<noteq> []"
    and "same_shape (store w acc) g"
    and "acc < next_addr w" and "d < next_addr w" and "d \<noteq> acc"
  shows "fst (sg_loop pf gauss d stds lbls acc k w) = None"
  using assms(3-8)
proof (induction k arbitrary: w)
  case 0
  show ?case by simp
next
  case (Suc k)
  let ?S = "sg_step pf gauss d stds lbls acc w"
  from make_noise_ok[OF assms(2) Suc.prems(1), of gauss w] obtain z where
    z: "fst (make_noise gauss stds (store w d) w) = Inr z" ..
  from assms(1) obtain pl pp m' where
    pf: "pf (np_add (store w d) z) (Some lbls) (model w) = (Inr (g, pl, pp), m')"
    unfolding const_grad_def by blast
  from sg_step_complete[OF z Suc.prems(2) Suc.prems(4), of pf lbls] pf Suc.prems(3)
  have ok: "fst ?S = None" by simp
  from sg_step_sound[OF Suc.prems(4), of pf gauss d stds lbls] ok obtain cs g' where
    s: "next_addr w \<le> next_addr (snd ?S)"
       "\<forall>a. a < next_addr w \<and> a \<noteq> acc \<longrightarrow> store (snd ?S) a = store w a"
       "replay pf lbls cs (model w) = Inr [g']"
       "store (snd ?S) acc = np_add (store w acc) g'"
    by (elim exE conjE) blast
  from s(3) replay_const[OF assms(1), of lbls cs "model w"] have "g' = g"
    by (cases cs) auto
  with s(4) Suc.prems(3) have sh: "same_shape (store (snd ?S) acc) g"
    by (simp add: same_shape_np_add)
  have d1: "store (snd ?S) d = store w d" using s(2) Suc.prems by simp
  have "fst (sg_loop pf gauss d stds lbls acc k (snd ?S)) = None"
    using Suc.prems s(1) sh by (intro Suc.IH) (simp_all add: d1)
  then show ?case using ok by (cases ?S) simp
qed

lemma finish_returns:
  assumes "ro = None" and "save_path args = None \<and> \<not> visual args \<or> (\<forall>t. vis t = None)"
  shows "fst (finish vis args lbls acc (ro, w5)) = Inr (next_addr w5)"
  using assms by (auto simp: finish_def alloc_def Let_def split: option.splits)

lemma sg_interpret_returns:
  assumes base: "pf data (labels args) (model w0) = (Inr (g0, pl, pp), m1)"
    and lbls: "lbls = (case labels args of None \<Rightarrow> pl | Some l \<Rightarrow> l)"
    and len: "length lbls = length data"
    and ne: "\<forall>s\<in>set data. s \<noteq> []"
    and loop: "fst (sg_loop pf gauss (next_addr w0) (map (noise_scale (noise_amount args)) data)
                  lbls (Suc (next_addr w0)) (nat (n_samples args))
                  (before_loop w0 data args pl pp m1)) = None"
    and vis: "save_path args = None \<and> \<not> visual args \<or> (\<forall>t. vis t = None)"
  shows "\<exists>r. fst (sg_interpret pf gauss vis args data w0) = Inr r"
proof -
  let ?L = "sg_loop pf gauss (next_addr w0) (map (noise_scale (noise_amount args)) data)
                  lbls (Suc (next_addr w0)) (nat (n_samples args))
                  (before_loop w0 data args pl pp m1)"
  have R: "sg_interpret pf gauss vis args data w0 =
      finish vis args lbls (Suc (next_addr w0)) (fst ?L, snd ?L)"
    unfolding sg_interpret_unfold[where pf=pf and data=data and args=args and ?w0.0=w0
        and gauss=gauss and vis=vis, OF base lbls]
    using len ne by (simp add: np_stds_eq)
  have "fst (finish vis args lbls (Suc (next_addr w0)) (fst ?L, snd ?L)) = Inr (next_addr (snd ?L))"
    using loop vis by (rule finish_returns)
  then show ?thesis unfolding R by blast
qed

lemma const_stub_returns:
  assumes cg: "const_grad pf g"
    and base: "pf data (labels args) (model w0) = (Inr (g0, pl, pp), m1)"
    and lbls: "lbls = (case labels args of None \<Rightarrow> pl | Some l \<Rightarrow> l)"
    and len: "length lbls = length data"
    and ne: "data \<noteq> []" "\<forall>s\<in>set data. s \<noteq> []"
    and na: "\<not> flt (noise_amount args) (Fin 0)"
    and sh: "same_shape data g"
    and vis: "save_path args = None \<and> \<not> visual args \<or> (\<forall>t. vis t = None)"
  shows "\<exists>r. fst (sg_interpret pf gauss vis args data w0) = Inr r
           \<and> store (snd (sg_interpret pf gauss vis args data w0)) r =
               np_divide (foldl np_add (zeros_like data) (replicate (nat (n_samples args)) g))
                 (n_samples args)"
proof -
  let ?w4 = "before_loop w0 data args pl pp m1"
  let ?stds = "map (noise_scale (noise_amount args)) data"
  have nn: "list_all (\<lambda>s. \<not> flt s (Fin 0)) ?stds"
    using na by (simp add: list_all_iff noise_scale_nonneg)
  have "fst (sg_loop pf gauss (next_addr w0) ?stds lbls (Suc (next_addr w0))
                (nat (n_samples args)) ?w4) = None"
    using cg nn ne(1) sh
    by (intro sg_loop_const[where g=g]) (simp_all add: before_loop_facts)
  from sg_interpret_returns[OF base lbls len ne(2) this vis] obtain r where
    r: "fst (sg_interpret pf gauss vis args data w0) = Inr r" ..
  from sg_interpret_summary[where pf=pf and data=data and args=args and ?w0.0=w0
        and gauss=gauss and vis=vis, OF base lbls] r
  obtain cs gs where
    "length cs = nat (n_samples args)" "replay pf lbls cs m1 = Inr gs"
    "store (snd (sg_interpret pf gauss vis args data w0)) r =
       np_divide (foldl np_add (zeros_like data) gs) (n_samples args)"
    by (elim exE conjE) blast
  with replay_const[OF cg, of lbls cs m1] r show ?thesis
    by (intro exI[of _ r]) simp
qed


lemma demo_run_returns:
  assumes "\<not> flt na (Fin 0)"
  shows "\<exists>r. fst (sg_interpret (stub_fn [[Fin 1, Fin 2]]) gauss (\<lambda>t. None) (demo_args na n)
                 [[Fin 1, Fin 2]] (init_world ())) = Inr r"
proof -
  have cg: "const_grad (stub_fn [[Fin 1, Fin 2]]) [[Fin 1, Fin 2]]"
    by (simp add: const_grad_def stub_fn_def)
  from const_stub_returns[where pf="stub_fn [[Fin 1, Fin 2]]" and g="[[Fin 1, Fin 2]]"
      and data="[[Fin 1, Fin 2]]" and args="demo_args na n" and ?w0.0="init_world ()"
      and ?g0.0="[[Fin 1, Fin 2]]" and pl="[0]" and pp="[Fin 1]" and ?m1.0="()"
      and lbls="[0]" and vis="\<lambda>t. None" and gauss=gauss, OF cg]
  show ?thesis using assms
    by (auto simp: stub_fn_def demo_args_def same_shape_def)
qed

lemma sg_step_next_addr:
  assumes "fst (sg_step pf gauss d stds lbls acc w) = None"
  shows "next_addr (snd (sg_step pf gauss d stds lbls acc w)) = Suc (next_addr w)"
proof -
  let ?D = "store w d"
  from make_noise_frame[of gauss stds ?D w] obtain xs k where
    mn: "snd (make_noise gauss stds ?D w) = w\<lparr>normal_log := normal_log w @ xs, rng := k\<rparr>"
    by blast
  obtain r where mk: "make_noise gauss stds ?D w = (r, w\<lparr>normal_log := normal_log w @ xs, rng := k\<rparr>)"
    using mn by (cases "make_noise gauss stds ?D w") simp
  show ?thesis
    using assms mk
    by (auto simp: sg_step_def np_concatenate_def alloc_def call_predict_fn_def np_iadd_def Let_def
             split: sum.splits prod.splits if_splits)
qed

lemma sg_loop_next_addr:
  "fst (sg_loop pf gauss d stds lbls acc k w) = None \<Longrightarrow>
     next_addr (snd (sg_loop pf gauss d stds lbls acc k w)) = next_addr w + k"
proof (induction k arbitrary: w)
  case 0
  then show ?case by simp
next
  case (Suc k)
  let ?S = "sg_step pf gauss d stds lbls acc w"
  from Suc.prems have ok: "fst ?S = None"
    by (cases ?S) (auto split: option.splits)
  then have L: "sg_loop pf gauss d stds lbls acc (Suc k) w = sg_loop pf gauss d stds lbls acc k (snd ?S)"
    by (cases ?S) simp
  from Suc.prems have "fst (sg_loop pf gauss d stds lbls acc k (snd ?S)) = None"
    unfolding L .
  from Suc.IH[OF this] sg_step_next_addr[OF ok] show ?case
    unfolding L by simp
qed









lemma sg_interpret_result_addr:
  assumes "fst (sg_interpret pf gauss vis args data w0) = Inr r"
  shows "r = next_addr w0 + 2 + nat (n_samples args)"
proof -
  obtain q m1 where pf: "pf data (labels args) (model w0) = (q, m1)"
    by (cases "pf data (labels args) (model w0)")
  show ?thesis
  proof (cases q)
    case (Inl e)
    from assms show ?thesis
      unfolding sg_interpret_baseline_fails[where pf=pf and data=data and args=args and ?w0.0=w0
        and gauss=gauss and vis=vis, OF pf[unfolded Inl]]
      by simp
  next
    case (Inr t)
    obtain g0 pl pp where t: "t = (g0, pl, pp)" by (cases t)
    let ?lbls = "case labels args of None \<Rightarrow> pl | Some l \<Rightarrow> l"
    let ?L = "sg_loop pf gauss (next_addr w0) (map (noise_scale (noise_amount args)) data)
                  ?lbls (Suc (next_addr w0)) (nat (n_samples args))
                  (before_loop w0 data args pl pp m1)"
    note unf = sg_interpret_unfold[where pf=pf and data=data and args=args and ?w0.0=w0
        and gauss=gauss and vis=vis, OF pf[unfolded Inr t] refl]
    from assms have ok: "length ?lbls = length data \<and> (\<forall>s\<in>set data. s \<noteq> [])"
      unfolding unf by (auto simp: np_stds_eq split: if_splits)
    then have R: "sg_interpret pf gauss vis args data w0 =
        finish vis args ?lbls (Suc (next_addr w0)) (fst ?L, snd ?L)"
      unfolding unf by (simp add: np_stds_eq)
    from assms finish_facts[of vis args ?lbls "Suc (next_addr w0)" "fst ?L" "snd ?L"]
    have "fst ?L = None" and "r = next_addr (snd ?L)"
      unfolding R by blast+
    with sg_loop_next_addr[of pf gauss "next_addr w0" _ ?lbls "Suc (next_addr w0)"
        "nat (n_samples args)" "before_loop w0 data args pl pp m1"]
    show ?thesis by (simp add: before_loop_facts)
  qed
qed






text \<open>
  C3. The labels are fixed once, after the baseline call on the unperturbed batch and
  before the loop: the caller's labels if given, otherwise the labels the baseline call
  predicted. The baseline call is the first \<^verbatim>\<open>predict_fn\<close> call of the run and gets the
  unperturbed batch with the caller's labels; every later call (at most \<^verbatim>\<open>n_samples\<close>,
  and exactly \<^verbatim>\<open>n_samples\<close> when \<^verbatim>\<open>interpret\<close> returns) gets the same fixed labels, which
  are also what \<^verbatim>\<open>self.labels\<close> holds on return.
\<close>

theorem labels_resolved_once:
  assumes "pf data (labels args) (model w0) = (Inr (g0, pl, pp), m1)"
  shows "\<exists>cs. predict_log (snd (sg_interpret pf gauss vis args data w0)) =
             predict_log w0 @ (data, labels args)
               # map (\<lambda>x. (x, Some (case labels args of None \<Rightarrow> pl | Some l \<Rightarrow> l))) cs
           \<and> length cs \<le> nat (n_samples args)
           \<and> (\<forall>r. fst (sg_interpret pf gauss vis args data w0) = Inr r \<longrightarrow>
                 length cs = nat (n_samples args)
               \<and> self_labels (snd (sg_interpret pf gauss vis args data w0)) =
                   Some (case labels args of None \<Rightarrow> pl | Some l \<Rightarrow> l))"
  using sg_interpret_summary[where pf=pf and data=data and args=args and ?w0.0=w0
        and gauss=gauss and vis=vis, OF assms refl]
  by (elim exE conjE) blast

theorem labels_resolved_once_witness:
  "map snd (predict_log (snd (sg_interpret (stub_fn [[Fin 1, Fin 2]]) (\<lambda>i. 1 / 2) (\<lambda>t. None)
                            (demo_args (Fin (1 / 10)) 2) [[Fin 1, Fin 2]] (init_world ())))) =
     [None, Some [0], Some [0]]
   \<and> self_labels (snd (sg_interpret (stub_fn [[Fin 1, Fin 2]]) (\<lambda>i. 1 / 2) (\<lambda>t. None)
                            (demo_args (Fin (1 / 10)) 2) [[Fin 1, Fin 2]] (init_world ()))) =
     Some [0]"
proof -
  let ?args = "demo_args (Fin (1 / 10)) 2"
  let ?R = "sg_interpret (stub_fn [[Fin 1, Fin 2]]) (\<lambda>i. 1 / 2) (\<lambda>t. None)
              ?args [[Fin 1, Fin 2]] (init_world ())"
  from demo_run_returns[of "Fin (1 / 10)" "\<lambda>i. 1 / 2" 2] obtain r where r: "fst ?R = Inr r"
    by auto
  have base: "stub_fn [[Fin 1, Fin 2]] [[Fin 1, Fin 2]] (labels ?args) (model (init_world ())) =
      (Inr ([[Fin 1, Fin 2]], [0], [Fin 1]), ())"
    by (simp add: stub_fn_def)
  have l: "(case labels ?args of None \<Rightarrow> [0::int] | Some l \<Rightarrow> l) = [0]" "labels ?args = None"
    "predict_log (init_world ()) = []" "nat (n_samples ?args) = Suc (Suc 0)"
    by (simp_all add: demo_args_def init_world_def)
  note T = labels_resolved_once[where pf="stub_fn [[Fin 1, Fin 2]]" and data="[[Fin 1, Fin 2]]"
      and args="?args" and ?w0.0="init_world ()" and gauss="\<lambda>i. 1 / 2" and vis="\<lambda>t. None",
      OF base, unfolded l option.case]
  from T obtain cs where
    p: "predict_log (snd ?R) = [] @ ([[Fin 1, Fin 2]], None) # map (\<lambda>x. (x, Some [0])) cs"
    and ok: "\<forall>r. fst ?R = Inr r \<longrightarrow> length cs = Suc (Suc 0) \<and> self_labels (snd ?R) = Some [0]"
    by (elim exE conjE) (rule that; assumption)
  from ok[rule_format, OF r] have len: "length cs = Suc (Suc 0)" and sl: "self_labels (snd ?R) = Some [0]"
    by simp_all
  have "map snd (map (\<lambda>x. (x, Some [0::int])) cs) = replicate (length cs) (Some [0])"
    by (simp add: comp_def map_replicate_const)
  then have "map snd (predict_log (snd ?R)) = [None, Some [0], Some [0]]"
    unfolding p len by simp
  then show ?thesis using sl by (rule conjI)
qed



text \<open>
  C9. \<^verbatim>\<open>interpret\<close> never writes to the preprocessed batch: when the call ends, by return
  or by an error, the cell that holds \<^verbatim>\<open>data\<close> (the first cell allocated by the call) has
  its original value, and so has every array that existed before the call. The
  explanation it returns is in a cell allocated after the accumulator (the second cell
  of the call), so it is neither the accumulator nor the batch, and it holds the
  accumulator's final value divided by \<^verbatim>\<open>n_samples\<close>.
\<close>

theorem batch_not_modified:
  "store (snd (sg_interpret pf gauss vis args data w0)) (next_addr w0) = data
   \<and> (\<forall>a<next_addr w0. store (snd (sg_interpret pf gauss vis args data w0)) a = store w0 a)
   \<and> (\<forall>r. fst (sg_interpret pf gauss vis args data w0) = Inr r \<longrightarrow>
         Suc (next_addr w0) < r
       \<and> store (snd (sg_interpret pf gauss vis args data w0)) r =
           np_divide (store (snd (sg_interpret pf gauss vis args data w0)) (Suc (next_addr w0)))
             (n_samples args))"
proof -
  obtain q m1 where pf: "pf data (labels args) (model w0) = (q, m1)"
    by (cases "pf data (labels args) (model w0)")
  show ?thesis
  proof (cases q)
    case (Inl e)
    show ?thesis
      unfolding sg_interpret_baseline_fails[where pf=pf and data=data and args=args and ?w0.0=w0
        and gauss=gauss and vis=vis, OF pf[unfolded Inl]]
      by simp
  next
    case (Inr t)
    obtain g0 pl pp where t: "t = (g0, pl, pp)" by (cases t)
    from sg_interpret_summary[where pf=pf and data=data and args=args and ?w0.0=w0
        and gauss=gauss and vis=vis, OF pf[unfolded Inr t] refl]
    show ?thesis by (elim exE conjE) (metis (no_types, lifting))
  qed
qed

theorem batch_not_modified_witness:
  "store (snd (sg_interpret (stub_fn [[Fin 1, Fin 2]]) (\<lambda>i. 1 / 2) (\<lambda>t. None)
                 (demo_args (Fin (1 / 10)) 2) [[Fin 1, Fin 2]] (init_world ()))) 0 =
     [[Fin 1, Fin 2]]
   \<and> fst (sg_interpret (stub_fn [[Fin 1, Fin 2]]) (\<lambda>i. 1 / 2) (\<lambda>t. None)
                 (demo_args (Fin (1 / 10)) 2) [[Fin 1, Fin 2]] (init_world ())) = Inr 4
   \<and> store (snd (sg_interpret (stub_fn [[Fin 1, Fin 2]]) (\<lambda>i. 1 / 2) (\<lambda>t. None)
                 (demo_args (Fin (1 / 10)) 2) [[Fin 1, Fin 2]] (init_world ()))) 4 =
     np_divide (store (snd (sg_interpret (stub_fn [[Fin 1, Fin 2]]) (\<lambda>i. 1 / 2) (\<lambda>t. None)
                 (demo_args (Fin (1 / 10)) 2) [[Fin 1, Fin 2]] (init_world ()))) 1) 2"
proof -
  let ?args = "demo_args (Fin (1 / 10)) 2"
  let ?R = "sg_interpret (stub_fn [[Fin 1, Fin 2]]) (\<lambda>i. 1 / 2) (\<lambda>t. None)
              ?args [[Fin 1, Fin 2]] (init_world ())"
  from demo_run_returns[of "Fin (1 / 10)" "\<lambda>i. 1 / 2" 2] obtain r where r: "fst ?R = Inr r"
    by auto
  from sg_interpret_result_addr[OF r] have r4: "r = 4"
    by (simp add: demo_args_def init_world_def)
  have l: "next_addr (init_world ()) = 0" "n_samples ?args = 2"
    by (simp_all add: demo_args_def init_world_def)
  note T = batch_not_modified[of "stub_fn [[Fin 1, Fin 2]]" "\<lambda>i. 1 / 2" "\<lambda>t. None"
      ?args "[[Fin 1, Fin 2]]" "init_world ()", unfolded l]
  note T1 = T[THEN conjunct1]
  note T3 = T[THEN conjunct2, THEN conjunct2, rule_format, OF r, THEN conjunct2]
  from T1 r T3 show ?thesis unfolding r4 One_nat_def by (intro conjI)
qed




text \<open>
  C8. When the caller supplies labels whose number differs from the batch size, the call
  fails: if the baseline \<^verbatim>\<open>predict_fn\<close> call raises, with its error, otherwise with the
  \<^verbatim>\<open>ValueError\<close> of \<^verbatim>\<open>reshape((bsz, ))\<close>. Only the baseline call has been made and no
  noise has been drawn: the labels are never broadcast over the batch.
\<close>

theorem mismatched_labels_rejected:
  assumes "labels args = Some l" and "length l \<noteq> length data"
  shows "fst (sg_interpret pf gauss vis args data w0) =
           Inl (case fst (pf data (Some l) (model w0)) of Inl e \<Rightarrow> e | Inr r \<Rightarrow> ValueError)
         \<and> predict_log (snd (sg_interpret pf gauss vis args data w0)) =
             predict_log w0 @ [(data, Some l)]
         \<and> normal_log (snd (sg_interpret pf gauss vis args data w0)) = normal_log w0"
  using assms
  by (auto simp: sg_interpret_def alloc_def call_predict_fn_def Let_def
           split: prod.splits sum.splits)

theorem mismatched_labels_rejected_witness:
  "fst (sg_interpret (\<lambda>x l m. (Inr (x, [0, 0], []), m)) (\<lambda>i. 0) (\<lambda>t. None)
          \<lparr>labels = Some [3], noise_amount = Fin (1 / 10), n_samples = 50,
           visual = True, save_path = None\<rparr>
          [[Fin 1], [Fin 2]] (init_world ())) = Inl ValueError"
  using mismatched_labels_rejected
          [of "\<lparr>labels = Some [3], noise_amount = Fin (1 / 10), n_samples = 50,
                visual = True, save_path = None\<rparr>"
              "[3]" "[[Fin 1], [Fin 2]]" "\<lambda>x l m. (Inr (x, [0, 0], []), m)"
              "\<lambda>i. 0" "\<lambda>t. None" "init_world ()"]
  by simp

section \<open>Properties of SmoothGradNLPInterpreter.interpret\<close>

lemma nlp_loop_events:
  "\<exists>j\<le>k. events (snd (nlp_loop pf mi lab na tot k w)) =
            events w @ replicate j (Predict mi (Some lab) (Some na))
        \<and> (\<forall>r. fst (nlp_loop pf mi lab na tot k w) = Inr r \<longrightarrow> j = k)"
proof (induction k arbitrary: tot w)
  case 0
  then show ?case by simp
next
  case (Suc k)
  obtain r m' where pf: "pf mi (Some lab) (Some na) (nlp_model w) = (r, m')"
    by (cases "pf mi (Some lab) (Some na) (nlp_model w)")
  let ?w1 = "w\<lparr>nlp_model := m', events := events w @ [Predict mi (Some lab) (Some na)]\<rparr>"
  have call: "nlp_call pf mi (Some lab) (Some na) w = (r, ?w1)"
    by (simp add: nlp_call_def pf)
  show ?case
  proof (cases r)
    case (Inl e)
    then show ?thesis
      using call by (intro exI[of _ 1]) simp
  next
    case (Inr t)
    obtain g l p where t: "t = (g, l, p)" by (cases t)
    show ?thesis
    proof (cases "same_shape tot g")
      case True
      from Suc.IH[of "np_add tot g" ?w1] obtain j where
        j: "j \<le> k"
           "events (snd (nlp_loop pf mi lab na (np_add tot g) k ?w1)) =
              events ?w1 @ replicate j (Predict mi (Some lab) (Some na))"
           "\<forall>r. fst (nlp_loop pf mi lab na (np_add tot g) k ?w1) = Inr r \<longrightarrow> j = k"
        by blast
      show ?thesis
        using call Inr t True j
        by (intro exI[of _ "Suc j"]) (simp add: replicate_append_same)
    next
      case False
      then show ?thesis
        using call Inr t by (intro exI[of _ 1]) simp
    qed
  qed
qed


lemma nlp_run_events:
  "\<exists>evs. events (snd (nlp_run pf args conv w1)) = events w1 @ evs"
proof (cases conv)
  case (Inl e) then show ?thesis by (simp add: nlp_run_def)
next
  case (Inr v)
  show ?thesis
  proof (cases "to_model_input v")
    case (Inl e) then show ?thesis using Inr by (simp add: nlp_run_def)
  next
    case mi: (Inr mi)
    obtain q m1 where pf: "pf mi (label args) None (nlp_model w1) = (q, m1)"
      by (cases "pf mi (label args) None (nlp_model w1)")
    show ?thesis
    proof (cases q)
      case (Inl e)
      then show ?thesis using Inr mi pf by (simp add: nlp_run_def nlp_call_def)
    next
      case q: (Inr t)
      obtain g lab p where t: "t = (g, lab, p)" by (cases t)
      let ?w2 = "w1\<lparr>nlp_model := m1, events := events w1 @ [Predict mi (label args) None]\<rparr>"
      from nlp_loop_events[of "nat (nlp_n_samples args)" pf mi lab "nlp_noise_amount args" "zeros_like g" ?w2]
      obtain j where "events (snd (nlp_loop pf mi lab (nlp_noise_amount args) (zeros_like g) (nat (nlp_n_samples args)) ?w2)) =
          events ?w2 @ replicate j (Predict mi (Some lab) (Some (nlp_noise_amount args)))"
        by blast
      then show ?thesis using Inr mi pf q t
        by (auto simp: nlp_run_def nlp_call_def split: prod.splits sum.splits)
    qed
  qed
qed

text \<open>
  C6. The call fails with the assertion error of line 167, leaving the world untouched
  (no tokenizer, text or model call has been made), when both \<^verbatim>\<open>tokenizer\<close> and
  \<^verbatim>\<open>text_to_input_fn\<close> are given or neither is; when exactly one is given it goes on
  to the text conversion, whose call is the first new event.
\<close>

theorem nlp_validation:
  "(Option.is_none tokenizer = Option.is_none t2i \<longrightarrow>
      nlp_interpret tokenizer t2i pf args w0 = (Inl AssertionError, w0))
   \<and> (Option.is_none tokenizer \<noteq> Option.is_none t2i \<longrightarrow>
      (\<exists>evs. events (snd (nlp_interpret tokenizer t2i pf args w0)) =
         events w0 @
         (case tokenizer of Some tok \<Rightarrow> Tokenize (raw_text args) (max_seq_len args)
          | None \<Rightarrow> TextToInput (raw_text args)) # evs))"
proof (cases tokenizer; cases t2i)
  fix f assume a: "tokenizer = None" "t2i = Some f"
  from nlp_run_events[of pf args "f (raw_text args)" "w0\<lparr>events := events w0 @ [TextToInput (raw_text args)]\<rparr>"]
  show ?thesis using a by (auto simp: nlp_interpret_def)
next
  fix tok assume a: "tokenizer = Some tok" "t2i = None"
  from nlp_run_events[of pf args "from_tokenizer tok (max_seq_len args) (raw_text args)"
       "w0\<lparr>events := events w0 @ [Tokenize (raw_text args) (max_seq_len args)]\<rparr>"]
  show ?thesis using a by (auto simp: nlp_interpret_def)
qed (simp_all add: nlp_interpret_def)

theorem nlp_validation_witness:
  "nlp_interpret (Some (\<lambda>t n. Inr [Axis [Scalar 1]])) (Some (\<lambda>t. Inr Opaque))
      (\<lambda>mi l na m. (Inr ([[Fin 1]], [0], [Fin 1]), m))
      \<lparr>raw_text = ''a'', label = None, nlp_noise_amount = Fin (1/10), nlp_n_samples = 2,
       max_seq_len = 128, nlp_visual = False\<rparr> (init_nlp_world ()) = (Inl AssertionError, init_nlp_world ())
   \<and> nlp_interpret None None
      (\<lambda>mi l na m. (Inr ([[Fin 1]], [0], [Fin 1]), m))
      \<lparr>raw_text = ''a'', label = None, nlp_noise_amount = Fin (1/10), nlp_n_samples = 2,
       max_seq_len = 128, nlp_visual = False\<rparr> (init_nlp_world ()) = (Inl AssertionError, init_nlp_world ())
   \<and> (\<exists>evs. events (snd (nlp_interpret (Some (\<lambda>t n. Inr [Axis [Scalar 1]])) None
      (\<lambda>mi l na m. (Inr ([[Fin 1]], [0], [Fin 1]), m))
      \<lparr>raw_text = ''a'', label = None, nlp_noise_amount = Fin (1/10), nlp_n_samples = 2,
       max_seq_len = 128, nlp_visual = False\<rparr> (init_nlp_world ()))) = Tokenize ''a'' 128 # evs)"
  using nlp_validation[of "Some (\<lambda>t n. Inr [Axis [Scalar 1]])" "Some (\<lambda>t. Inr Opaque)"
      "\<lambda>mi l na m. (Inr ([[Fin 1]], [0], [Fin 1]), m)"
      "\<lparr>raw_text = ''a'', label = None, nlp_noise_amount = Fin (1/10), nlp_n_samples = 2,
       max_seq_len = 128, nlp_visual = False\<rparr>" "init_nlp_world ()"]
    nlp_validation[of "None :: tokenizer option" "None :: text_to_input_fn option"
      "\<lambda>mi l na m. (Inr ([[Fin 1]], [0], [Fin 1]), m)"
      "\<lparr>raw_text = ''a'', label = None, nlp_noise_amount = Fin (1/10), nlp_n_samples = 2,
       max_seq_len = 128, nlp_visual = False\<rparr>" "init_nlp_world ()"]
    nlp_validation[of "Some (\<lambda>t n. Inr [Axis [Scalar 1]])" "None :: text_to_input_fn option"
      "\<lambda>mi l na m. (Inr ([[Fin 1]], [0], [Fin 1]), m)"
      "\<lparr>raw_text = ''a'', label = None, nlp_noise_amount = Fin (1/10), nlp_n_samples = 2,
       max_seq_len = 128, nlp_visual = False\<rparr>" "init_nlp_world ()"]
  by (simp add: init_nlp_world_def)




lemma nlp_run_trace:
  assumes mi: "to_model_input v = Inr mi"
  shows "\<exists>evs. events (snd (nlp_run pf args (Inr v) w1)) =
            events w1 @ Predict mi (label args) None # evs
          \<and> (\<forall>c\<in>set evs. \<exists>l na. c = Predict mi l na)"
proof -
  obtain q m1 where pf: "pf mi (label args) None (nlp_model w1) = (q, m1)"
    by (cases "pf mi (label args) None (nlp_model w1)")
  let ?w2 = "w1\<lparr>nlp_model := m1, events := events w1 @ [Predict mi (label args) None]\<rparr>"
  have call: "nlp_call pf mi (label args) None w1 = (q, ?w2)"
    by (simp add: nlp_call_def pf)
  show ?thesis
  proof (cases q)
    case (Inl e)
    then show ?thesis using mi call by (simp add: nlp_run_def)
  next
    case q: (Inr t)
    obtain g lab p where t: "t = (g, lab, p)" by (cases t)
    define L where "L = nlp_loop pf mi lab (nlp_noise_amount args) (zeros_like g) (nat (nlp_n_samples args)) ?w2"
    from nlp_loop_events[of "nat (nlp_n_samples args)" pf mi lab "nlp_noise_amount args" "zeros_like g" ?w2]
    obtain j where j: "events (snd L) =
        events ?w2 @ replicate j (Predict mi (Some lab) (Some (nlp_noise_amount args)))"
      unfolding L_def by blast
    have "events (snd (nlp_run pf args (Inr v) w1)) = events (snd L)"
      using mi call q t by (cases L) (auto simp: nlp_run_def L_def split: sum.splits)
    with j show ?thesis
      by (intro exI[of _ "replicate j (Predict mi (Some lab) (Some (nlp_noise_amount args)))"]) auto
  qed
qed

lemma not_own_singleton: "xs \<noteq> [Axis xs]"
proof
  assume "xs = [Axis xs]"
  then have "size_list size xs = size_list size [Axis xs]" by simp
  then show False by simp
qed

text \<open>
  C10. When \<^verbatim>\<open>text_to_input_fn\<close> returns one array (a value with a \<^verbatim>\<open>shape\<close>), the model
  input of every \<^verbatim>\<open>predict_fn\<close> call, the baseline call first, is the tuple of the array's
  elements along its first axis, which is never the one-element tuple holding the array
  itself; a tuple or list (no \<^verbatim>\<open>shape\<close>) is passed on with the components it has.
\<close>

theorem array_input_is_split_along_first_axis:
  assumes "tokenizer = None" and "t2i = Some f" and "f (raw_text args) = Inr v"
    and "v = Array (Axis xs) \<or> v = Sequence xs"
  shows "\<exists>evs. events (snd (nlp_interpret tokenizer t2i pf args w0)) =
            events w0 @ TextToInput (raw_text args) # Predict xs (label args) None # evs
          \<and> (\<forall>c\<in>set evs. \<exists>l na. c = Predict xs l na)
          \<and> xs \<noteq> [Axis xs]"
proof -
  from assms(4) have mi: "to_model_input v = Inr xs" by auto
  from nlp_run_trace[OF mi, of pf args "w0\<lparr>events := events w0 @ [TextToInput (raw_text args)]\<rparr>"]
  show ?thesis
    using assms(1-3) not_own_singleton[of xs] by (auto simp: nlp_interpret_def)
qed

theorem array_input_is_split_along_first_axis_witness:
  "\<exists>evs. events (snd (nlp_interpret None
              (Some (\<lambda>t. Inr (Array (Axis [Axis [Scalar 1, Scalar 2], Axis [Scalar 3, Scalar 4]]))))
              (\<lambda>mi l na m. (Inr ([[Fin 1]], [7], [Fin 1]), m))
              \<lparr>raw_text = ''a'', label = None, nlp_noise_amount = Fin (1 / 10),
               nlp_n_samples = 2, max_seq_len = 128, nlp_visual = False\<rparr>
              (init_nlp_world ()))) =
           TextToInput ''a''
             # Predict [Axis [Scalar 1, Scalar 2], Axis [Scalar 3, Scalar 4]] None None # evs"
  using array_input_is_split_along_first_axis
    [of None "Some (\<lambda>t. Inr (Array (Axis [Axis [Scalar 1, Scalar 2], Axis [Scalar 3, Scalar 4]])))"
        "\<lambda>t. Inr (Array (Axis [Axis [Scalar 1, Scalar 2], Axis [Scalar 3, Scalar 4]]))"
        "\<lparr>raw_text = ''a'', label = None, nlp_noise_amount = Fin (1 / 10),
               nlp_n_samples = 2, max_seq_len = 128, nlp_visual = False\<rparr>"
        "Array (Axis [Axis [Scalar 1, Scalar 2], Axis [Scalar 3, Scalar 4]])"
        "[Axis [Scalar 1, Scalar 2], Axis [Scalar 3, Scalar 4]]"
        "\<lambda>mi l na m. (Inr ([[Fin 1]], [7], [Fin 1]), m)" "init_nlp_world ()"]
  by (simp add: init_nlp_world_def) blast

end
